theory Spec2Isabelle
  imports
    Complex_Main
    "HOL-Library.List_Lexorder"
    "HOL-Library.Char_ord"
    "HOL-Library.Sublist"
    "HOL-Library.Multiset"
    "HOL-Library.Log_Nat"
begin

section \<open>The record store\<close>

text \<open>
  The cash store (\<^verbatim>\<open>src/lib/cash-store.ts\<close>) keeps no state of its own: every function
  reads and writes four database tables through the Supabase client. The tables are the
  ones of the SQL schema that accompanies the components
  (\<^verbatim>\<open>CREATE TABLE daily_entries\<close>, \<^verbatim>\<open>back_safe_withdrawals\<close>,
  \<^verbatim>\<open>back_safe_transactions\<close>, \<^verbatim>\<open>monthly_archives\<close>). A table is the list of its
  rows, and a row is a record with the columns of the schema.

  Conventions of the embedding:
  \<^item> a JavaScript \<^verbatim>\<open>number\<close> is an IEEE double; a \<open>number\<close> of the model is the
    real value of a double, and a numeric field of a row is the value the client receives
    for the column (the double nearest to the stored \<^verbatim>\<open>DECIMAL(10, 2)\<close>). The
    additions and subtractions that accumulate the back-safe balance round their exact
    result to the nearest double (\<open>round_double\<close> below), and so does the
    subtraction in the edit form. Elsewhere a number is copied, compared, or combined in
    the one expression of \<^verbatim>\<open>calculateExpectedFrontSafe\<close>, which is written with the exact
    operations;
  \<^item> dates (\<^verbatim>\<open>YYYY-MM-DD\<close>), months (\<^verbatim>\<open>YYYY-MM\<close>), timestamps and UUIDs are strings;
    strings are ordered lexicographically by character code, which is the order of
    JavaScript's \<^verbatim>\<open><\<close> on ASCII strings and of the database on ISO dates;
  \<^item> the clock (\<^verbatim>\<open>new Date().toISOString()\<close>) and the UUID generator
    (\<^verbatim>\<open>crypto.randomUUID()\<close>) are arguments \<open>now\<close> and \<open>txId\<close> of the functions
    that consult them;
  \<^item> no request fails for a reason outside the tables (network, session): the
    \<^verbatim>\<open>error\<close> branches of the source only log to the console and are followed by the
    same statements; the row-level security policies of the schema are not part of the
    model, the functions restrict their requests by \<^verbatim>\<open>user_id\<close> where the source does;
  \<^item> column names that occur in several tables carry the table's initials
    (\<open>de_\<close>, \<open>bw_\<close>, \<open>bt_\<close>, \<open>ma_\<close>); field names that occur in several
    TypeScript interfaces carry the interface's initial (\<open>e_\<close>, \<open>w_\<close>, \<open>t_\<close>).
\<close>

type_synonym uuid = string
type_synonym number = real

datatype TransactionType = Deposit | Withdrawal

record daily_entries_row =
  de_id :: uuid
  de_user_id :: uuid
  de_date :: string
  de_cash_in :: number
  de_deposited :: number
  de_to_back_safe :: number
  de_actual_left_in_front :: number
  de_left_in_front :: "number option"
  de_difference :: number
  de_discrepancy_reason :: "string option"
  de_manually_approved :: bool
  de_approval_note :: "string option"
  de_approved_at :: "string option"
  de_created_at :: string
  de_updated_at :: string

record back_safe_withdrawals_row =
  bw_id :: uuid
  bw_user_id :: uuid
  bw_date :: string
  bw_amount :: number
  bw_reason :: string
  bw_created_at :: string
  bw_updated_at :: string

record back_safe_transactions_row =
  bt_id :: uuid
  bt_user_id :: uuid
  bt_date :: string
  bt_type :: TransactionType
  bt_amount :: number
  bt_reason :: string
  bt_entry_id :: "uuid option"
  bt_withdrawal_id :: "uuid option"
  bt_created_at :: string

record monthly_archives_row =
  ma_user_id :: uuid
  ma_month :: string
  ma_starting_front_safe :: number
  ma_starting_back_safe :: number
  ma_ending_front_safe :: number
  ma_ending_back_safe :: number
  ma_is_closed :: bool
  ma_closed_at :: "string option"

text \<open>
  The store: the signed-in user (\<^verbatim>\<open>getCurrentUser\<close>, \<open>None\<close> when nobody is signed
  in) and the four tables.
\<close>

record store =
  user :: "uuid option"
  daily_entries :: "daily_entries_row list"
  back_safe_withdrawals :: "back_safe_withdrawals_row list"
  back_safe_transactions :: "back_safe_transactions_row list"
  monthly_archives :: "monthly_archives_row list"

subsection \<open>The TypeScript interfaces\<close>

record DailyEntry =
  e_id :: uuid
  e_date :: string
  cashIn :: number
  deposited :: number
  toBackSafe :: number
  leftInFront :: number
  expectedFrontSafe :: number
  difference :: number
  isBalanced :: bool
  e_notes :: "string option"
  manuallyApproved :: bool
  approvalNote :: "string option"
  approvedAt :: "string option"
  e_createdAt :: string
  e_updatedAt :: string

record BackSafeWithdrawal =
  w_id :: uuid
  w_date :: string
  w_amount :: number
  w_reason :: string
  w_createdAt :: string

record BackSafeTransaction =
  t_id :: uuid
  t_date :: string
  t_type :: TransactionType
  t_amount :: number
  t_reason :: string
  fromEntryId :: "uuid option"
  withdrawalId :: "uuid option"
  t_createdAt :: string

record SafeBalances =
  frontSafe :: number
  backSafe :: number
  lastUpdated :: string

record MonthlyArchive =
  month :: string
  startingFrontSafe :: number
  startingBackSafe :: number
  endingFrontSafe :: number
  endingBackSafe :: number
  entries :: "DailyEntry list"
  withdrawals :: "BackSafeWithdrawal list"
  isClosed :: bool
  closedAt :: "string option"

subsection \<open>Queries\<close>

text \<open>\<^verbatim>\<open>.order(column, { ascending: false })\<close>: the rows in descending order of a column.\<close>

definition order_desc :: "('a \<Rightarrow> string) \<Rightarrow> 'a list \<Rightarrow> 'a list" where
  "order_desc col rows = rev (sort_key col rows)"

text \<open>The callback of \<^verbatim>\<open>data?.map\<close> in \<^verbatim>\<open>getEntries\<close>.\<close>

definition entryOfRow :: "daily_entries_row \<Rightarrow> DailyEntry" where
  "entryOfRow row =
     \<lparr> e_id = de_id row,
       e_date = de_date row,
       cashIn = de_cash_in row,
       deposited = de_deposited row,
       toBackSafe = de_to_back_safe row,
       leftInFront = de_actual_left_in_front row,
       expectedFrontSafe = (case de_left_in_front row of None \<Rightarrow> 0 | Some v \<Rightarrow> v),
       difference = de_difference row,
       isBalanced = (\<bar>de_difference row\<bar> < 0.01),
       e_notes = de_discrepancy_reason row,
       manuallyApproved = de_manually_approved row,
       approvalNote = de_approval_note row,
       approvedAt = de_approved_at row,
       e_createdAt = de_created_at row,
       e_updatedAt = de_updated_at row \<rparr>"

definition getEntries :: "store \<Rightarrow> DailyEntry list" where
  "getEntries s =
     (case user s of
        None \<Rightarrow> []
      | Some u \<Rightarrow>
          map entryOfRow
            (order_desc de_date (filter (\<lambda>row. de_user_id row = u) (daily_entries s))))"

definition withdrawalOfRow :: "back_safe_withdrawals_row \<Rightarrow> BackSafeWithdrawal" where
  "withdrawalOfRow row =
     \<lparr> w_id = bw_id row,
       w_date = bw_date row,
       w_amount = bw_amount row,
       w_reason = bw_reason row,
       w_createdAt = bw_created_at row \<rparr>"

definition getWithdrawals :: "store \<Rightarrow> BackSafeWithdrawal list" where
  "getWithdrawals s =
     (case user s of
        None \<Rightarrow> []
      | Some u \<Rightarrow>
          map withdrawalOfRow
            (order_desc bw_date (filter (\<lambda>row. bw_user_id row = u) (back_safe_withdrawals s))))"

definition transactionOfRow :: "back_safe_transactions_row \<Rightarrow> BackSafeTransaction" where
  "transactionOfRow row =
     \<lparr> t_id = bt_id row,
       t_date = bt_date row,
       t_type = bt_type row,
       t_amount = bt_amount row,
       t_reason = bt_reason row,
       fromEntryId = bt_entry_id row,
       withdrawalId = bt_withdrawal_id row,
       t_createdAt = bt_created_at row \<rparr>"

definition getBackSafeTransactions :: "store \<Rightarrow> BackSafeTransaction list" where
  "getBackSafeTransactions s =
     (case user s of
        None \<Rightarrow> []
      | Some u \<Rightarrow>
          map transactionOfRow
            (order_desc bt_date (filter (\<lambda>row. bt_user_id row = u) (back_safe_transactions s))))"

definition archiveOfRow :: "monthly_archives_row \<Rightarrow> MonthlyArchive" where
  "archiveOfRow row =
     \<lparr> month = ma_month row,
       startingFrontSafe = ma_starting_front_safe row,
       startingBackSafe = ma_starting_back_safe row,
       endingFrontSafe = ma_ending_front_safe row,
       endingBackSafe = ma_ending_back_safe row,
       entries = [],
       withdrawals = [],
       isClosed = ma_is_closed row,
       closedAt = ma_closed_at row \<rparr>"

definition getArchives :: "store \<Rightarrow> MonthlyArchive list" where
  "getArchives s =
     (case user s of
        None \<Rightarrow> []
      | Some u \<Rightarrow>
          map archiveOfRow
            (order_desc ma_month (filter (\<lambda>row. ma_user_id row = u) (monthly_archives s))))"

subsection \<open>Double-precision addition\<close>

text \<open>
  \<^verbatim>\<open>+=\<close> and \<^verbatim>\<open>-=\<close> on JavaScript numbers return the exact sum or difference
  rounded to the nearest double, ties to the even significand. A double has a significand
  of 53 bits: in the binade \<open>2\<^sup>e \<le> \<bar>x\<bar> < 2\<^sup>e\<^sup>+\<^sup>1\<close> the doubles are the integer multiples
  of \<open>2\<^sup>e\<^sup>-\<^sup>5\<^sup>2\<close>. \<open>binade x\<close> is that exponent \<open>e\<close>, computed from the bit length of
  the integer part of \<open>\<bar>x\<bar>\<close>, or of \<open>1 / \<bar>x\<bar>\<close> below 1. Overflow to infinity and the
  subnormal range are outside the model: sums of \<^verbatim>\<open>DECIMAL(10, 2)\<close> amounts reach
  neither.
\<close>

definition binade :: "real \<Rightarrow> int" where
  "binade x =
     (if 1 \<le> \<bar>x\<bar> then bitlen \<lfloor>\<bar>x\<bar>\<rfloor> - 1 else - bitlen (\<lceil>1 / \<bar>x\<bar>\<rceil> - 1))"

definition roundTiesToEven :: "real \<Rightarrow> int" where
  "roundTiesToEven y =
     (let f = \<lfloor>y\<rfloor>; d = y - of_int f
      in if d < 1 / 2 then f else if 1 / 2 < d then f + 1 else if even f then f else f + 1)"

definition round_double :: "real \<Rightarrow> number" where
  "round_double x =
     (if x = 0 then 0
      else (let ulp = 2 powi (binade x - 52) in of_int (roundTiesToEven (x / ulp)) * ulp))"

subsection \<open>Balances\<close>

text \<open>
  The body of \<^verbatim>\<open>transactionsData.forEach\<close> in \<^verbatim>\<open>getBalances\<close>: two independent
  \<^verbatim>\<open>if\<close> statements on the running total \<^verbatim>\<open>backSafe\<close>, each a rounded
  \<^verbatim>\<open>+=\<close> or \<^verbatim>\<open>-=\<close>.
\<close>

definition backSafeStep :: "number \<Rightarrow> BackSafeTransaction \<Rightarrow> number" where
  "backSafeStep backSafe0 t =
     (let backSafe1 = (if t_type t = Deposit then round_double (backSafe0 + t_amount t)
                       else backSafe0)
      in if t_type t = Withdrawal then round_double (backSafe1 - t_amount t) else backSafe1)"

text \<open>
  \<^verbatim>\<open>getBalances\<close> also fetches the withdrawals; the result does not use them.
\<close>

definition getBalances :: "store \<Rightarrow> string \<Rightarrow> SafeBalances" where
  "getBalances s now =
     (case user s of
        None \<Rightarrow> \<lparr> frontSafe = 0, backSafe = 0, lastUpdated = now \<rparr>
      | Some u \<Rightarrow>
          \<lparr> frontSafe = (case getEntries s of [] \<Rightarrow> 0 | latestEntry # _ \<Rightarrow> leftInFront latestEntry),
            backSafe = foldl backSafeStep 0 (getBackSafeTransactions s),
            lastUpdated = now \<rparr>)"


definition getPreviousDayBalance :: "store \<Rightarrow> string \<Rightarrow> number" where
  "getPreviousDayBalance s now =
     (case getEntries s of
        [] \<Rightarrow> frontSafe (getBalances s now)
      | e # _ \<Rightarrow> leftInFront e)"


text \<open>
  The previous balance in the words of the specification: the front-safe balance as of
  the most recent entry strictly before a date, or 0 if there is none. It is stated over
  the date-descending list of \<^const>\<open>getEntries\<close>, for comparison with
  \<^const>\<open>getPreviousDayBalance\<close>.
\<close>

definition spec_previousBalance :: "string \<Rightarrow> store \<Rightarrow> number" where
  "spec_previousBalance date s =
     (case filter (\<lambda>e. e_date e < date) (getEntries s) of
        [] \<Rightarrow> 0
      | e # _ \<Rightarrow> leftInFront e)"

subsection \<open>Foreign keys of the ledger\<close>

text \<open>
  The schema declares the two links of a ledger row as
  \<^verbatim>\<open>entry_id UUID REFERENCES daily_entries(id) ON DELETE SET NULL\<close> and
  \<^verbatim>\<open>withdrawal_id UUID REFERENCES back_safe_withdrawals(id) ON DELETE SET NULL\<close>:
  when a referenced row is deleted, the database keeps the ledger row and clears its link.
  The functions below are those two referential actions, applied to the identifiers of
  the rows a \<^verbatim>\<open>DELETE\<close> has removed.
\<close>

definition entry_id_set_null ::
    "uuid list \<Rightarrow> back_safe_transactions_row list \<Rightarrow> back_safe_transactions_row list" where
  "entry_id_set_null deleted rows =
     map (\<lambda>t. case bt_entry_id t of
                None \<Rightarrow> t
              | Some i \<Rightarrow> if i \<in> set deleted then t\<lparr>bt_entry_id := None\<rparr> else t) rows"

definition withdrawal_id_set_null ::
    "uuid list \<Rightarrow> back_safe_transactions_row list \<Rightarrow> back_safe_transactions_row list" where
  "withdrawal_id_set_null deleted rows =
     map (\<lambda>t. case bt_withdrawal_id t of
                None \<Rightarrow> t
              | Some i \<Rightarrow> if i \<in> set deleted then t\<lparr>bt_withdrawal_id := None\<rparr> else t) rows"

subsection \<open>Daily entries: delete, approve, remove approval\<close>

definition deleteEntry :: "uuid \<Rightarrow> store \<Rightarrow> store" where
  "deleteEntry i s =
     (case user s of
        None \<Rightarrow> s
      | Some u \<Rightarrow>
          (let deleted = filter (\<lambda>row. de_id row = i \<and> de_user_id row = u) (daily_entries s)
           in s\<lparr> daily_entries :=
                    filter (\<lambda>row. \<not> (de_id row = i \<and> de_user_id row = u)) (daily_entries s),
                  back_safe_transactions :=
                    entry_id_set_null (map de_id deleted) (back_safe_transactions s) \<rparr>))"

definition approveEntry :: "uuid \<Rightarrow> string \<Rightarrow> string \<Rightarrow> store \<Rightarrow> store" where
  "approveEntry i approvalNote' now s =
     (case user s of
        None \<Rightarrow> s
      | Some u \<Rightarrow>
          s\<lparr> daily_entries :=
                map (\<lambda>row. if de_id row = i \<and> de_user_id row = u
                            then row\<lparr> de_manually_approved := True,
                                      de_approval_note := Some approvalNote',
                                      de_approved_at := Some now,
                                      de_updated_at := now \<rparr>
                            else row) (daily_entries s) \<rparr>)"

definition removeApproval :: "uuid \<Rightarrow> string \<Rightarrow> store \<Rightarrow> store" where
  "removeApproval i now s =
     (case user s of
        None \<Rightarrow> s
      | Some u \<Rightarrow>
          s\<lparr> daily_entries :=
                map (\<lambda>row. if de_id row = i \<and> de_user_id row = u
                            then row\<lparr> de_manually_approved := False,
                                      de_approval_note := None,
                                      de_approved_at := None,
                                      de_updated_at := now \<rparr>
                            else row) (daily_entries s) \<rparr>)"

subsection \<open>Withdrawals and their ledger rows\<close>

text \<open>
  \<^verbatim>\<open>insert\<close> into the ledger: the row is appended; a row whose primary key is already
  in the table is rejected by the database and the table stays as it is.
\<close>

definition saveBackSafeTransaction :: "BackSafeTransaction \<Rightarrow> string \<Rightarrow> store \<Rightarrow> store" where
  "saveBackSafeTransaction transaction now s =
     (case user s of
        None \<Rightarrow> s
      | Some u \<Rightarrow>
          if t_id transaction \<in> set (map bt_id (back_safe_transactions s)) then s
          else s\<lparr> back_safe_transactions :=
                     back_safe_transactions s @
                       [\<lparr> bt_id = t_id transaction,
                          bt_user_id = u,
                          bt_date = t_date transaction,
                          bt_type = t_type transaction,
                          bt_amount = t_amount transaction,
                          bt_reason = t_reason transaction,
                          bt_entry_id = fromEntryId transaction,
                          bt_withdrawal_id = withdrawalId transaction,
                          bt_created_at = now \<rparr>] \<rparr>)"

text \<open>
  \<^verbatim>\<open>upsert\<close> of a withdrawal: a row with the same primary key is overwritten in the
  columns the call supplies (\<^verbatim>\<open>created_at\<close> is not among them); otherwise the row is new.
\<close>

definition upsert_withdrawal ::
    "back_safe_withdrawals_row \<Rightarrow> back_safe_withdrawals_row list \<Rightarrow> back_safe_withdrawals_row list" where
  "upsert_withdrawal row rows =
     (if bw_id row \<in> set (map bw_id rows)
      then map (\<lambda>r. if bw_id r = bw_id row then row\<lparr>bw_created_at := bw_created_at r\<rparr> else r) rows
      else rows @ [row])"

definition saveWithdrawal :: "BackSafeWithdrawal \<Rightarrow> uuid \<Rightarrow> string \<Rightarrow> store \<Rightarrow> store" where
  "saveWithdrawal withdrawal txId now s =
     (case user s of
        None \<Rightarrow> s
      | Some u \<Rightarrow>
          (let s1 = s\<lparr> back_safe_withdrawals :=
                          upsert_withdrawal
                            \<lparr> bw_id = w_id withdrawal,
                              bw_user_id = u,
                              bw_date = w_date withdrawal,
                              bw_amount = w_amount withdrawal,
                              bw_reason = w_reason withdrawal,
                              bw_created_at = now,
                              bw_updated_at = now \<rparr>
                            (back_safe_withdrawals s) \<rparr>
           in saveBackSafeTransaction
                \<lparr> t_id = txId,
                  t_date = w_date withdrawal,
                  t_type = Withdrawal,
                  t_amount = w_amount withdrawal,
                  t_reason = w_reason withdrawal,
                  fromEntryId = None,
                  withdrawalId = Some (w_id withdrawal),
                  t_createdAt = now \<rparr> now s1))"

text \<open>
  \<^verbatim>\<open>deleteWithdrawal\<close> issues two requests in this order: the \<^verbatim>\<open>DELETE\<close> on
  \<^verbatim>\<open>back_safe_withdrawals\<close> (with its referential action on the ledger), then the
  \<^verbatim>\<open>DELETE\<close> on \<^verbatim>\<open>back_safe_transactions\<close> of the rows whose
  \<^verbatim>\<open>withdrawal_id\<close> equals the identifier.
\<close>

definition deleteWithdrawal :: "uuid \<Rightarrow> store \<Rightarrow> store" where
  "deleteWithdrawal i s =
     (case user s of
        None \<Rightarrow> s
      | Some u \<Rightarrow>
          (let deleted = filter (\<lambda>row. bw_id row = i \<and> bw_user_id row = u) (back_safe_withdrawals s);
               s1 = s\<lparr> back_safe_withdrawals :=
                          filter (\<lambda>row. \<not> (bw_id row = i \<and> bw_user_id row = u)) (back_safe_withdrawals s),
                        back_safe_transactions :=
                          withdrawal_id_set_null (map bw_id deleted) (back_safe_transactions s) \<rparr>
           in s1\<lparr> back_safe_transactions :=
                     filter (\<lambda>t. bt_withdrawal_id t \<noteq> Some i) (back_safe_transactions s1) \<rparr>))"

definition updateWithdrawal :: "uuid \<Rightarrow> number \<Rightarrow> string \<Rightarrow> string \<Rightarrow> store \<Rightarrow> store" where
  "updateWithdrawal i amount reason now s =
     (case user s of
        None \<Rightarrow> s
      | Some u \<Rightarrow>
          s\<lparr> back_safe_withdrawals :=
                map (\<lambda>row. if bw_id row = i \<and> bw_user_id row = u
                            then row\<lparr> bw_amount := amount, bw_reason := reason, bw_updated_at := now \<rparr>
                            else row) (back_safe_withdrawals s) \<rparr>)"

subsection \<open>The withdrawal form\<close>

text \<open>
  The handlers of \<^verbatim>\<open>BackSafeWithdrawalSection\<close>. The component keeps the balance it
  last loaded in \<^verbatim>\<open>currentBackSafe\<close>; \<^verbatim>\<open>loadData\<close> sets it from
  \<^verbatim>\<open>getBalances\<close>. A handler that stops at its \<^verbatim>\<open>alert\<close> returns the error and the
  store as it was; \<open>amountNum\<close> and \<open>newAmount\<close> are the numbers the handlers parse
  from the form's text fields.
\<close>

datatype error = InsufficientFundsError

definition loadData :: "store \<Rightarrow> string \<Rightarrow> number" where
  "loadData s now = backSafe (getBalances s now)"

definition handleSubmit ::
    "number \<Rightarrow> number \<Rightarrow> string \<Rightarrow> uuid \<Rightarrow> uuid \<Rightarrow> string \<Rightarrow> store \<Rightarrow> (error + unit) \<times> store" where
  "handleSubmit currentBackSafe amountNum reason newId txId now s =
     (if amountNum > currentBackSafe then (Inl InsufficientFundsError, s)
      else
        (let withdrawal = \<lparr> w_id = newId,
                             w_date = takeWhile (\<lambda>c. c \<noteq> CHR ''T'') now,
                             w_amount = amountNum,
                             w_reason = reason,
                             w_createdAt = now \<rparr>
         in (Inr (), saveWithdrawal withdrawal txId now s)))"

definition handleEditSubmit ::
    "number \<Rightarrow> number \<Rightarrow> BackSafeWithdrawal option \<Rightarrow> number \<Rightarrow> string \<Rightarrow> string \<Rightarrow> store
       \<Rightarrow> (error + unit) \<times> store" where
  "handleEditSubmit currentBackSafe originalAmount editingWithdrawal newAmount editReason now s =
     (case editingWithdrawal of
        None \<Rightarrow> (Inr (), s)
      | Some w \<Rightarrow>
          (let amountDifference = round_double (newAmount - originalAmount)
           in if amountDifference > currentBackSafe then (Inl InsufficientFundsError, s)
              else (Inr (), updateWithdrawal (w_id w) newAmount editReason now s)))"

definition handleDelete :: "uuid option \<Rightarrow> store \<Rightarrow> store" where
  "handleDelete deleteId s =
     (case deleteId of None \<Rightarrow> s | Some i \<Rightarrow> deleteWithdrawal i s)"

subsection \<open>Closing a month\<close>

definition getEntriesForMonth :: "string \<Rightarrow> store \<Rightarrow> DailyEntry list" where
  "getEntriesForMonth m s = filter (\<lambda>e. prefix m (e_date e)) (getEntries s)"

definition getWithdrawalsForMonth :: "string \<Rightarrow> store \<Rightarrow> BackSafeWithdrawal list" where
  "getWithdrawalsForMonth m s = filter (\<lambda>w. prefix m (w_date w)) (getWithdrawals s)"

text \<open>
  \<^verbatim>\<open>closeMonth\<close> builds the archive record, hands it to \<^verbatim>\<open>saveArchive\<close> and
  returns it; \<open>None\<close> is the \<^verbatim>\<open>null\<close> it returns without a user or without entries
  in the month. The model is the record returned, which is complete before the write.
\<close>

definition closeMonth :: "string \<Rightarrow> string \<Rightarrow> store \<Rightarrow> MonthlyArchive option" where
  "closeMonth m now s =
     (case user s of
        None \<Rightarrow> None
      | Some u \<Rightarrow>
          (let balances = getBalances s now;
               entries' = getEntriesForMonth m s;
               withdrawals' = getWithdrawalsForMonth m s;
               archives = getArchives s
           in if entries' = [] then None
              else
                (let previousArchive = find (\<lambda>a. month a < m \<and> isClosed a) archives;
                     startingFrontSafe' =
                       (case previousArchive of None \<Rightarrow> 0 | Some a \<Rightarrow> endingFrontSafe a);
                     startingBackSafe' =
                       (case previousArchive of None \<Rightarrow> 0 | Some a \<Rightarrow> endingBackSafe a)
                 in Some \<lparr> month = m,
                           startingFrontSafe = startingFrontSafe',
                           startingBackSafe = startingBackSafe',
                           endingFrontSafe = frontSafe balances,
                           endingBackSafe = backSafe balances,
                           entries = entries',
                           withdrawals = withdrawals',
                           isClosed = True,
                           closedAt = Some now \<rparr>)))"

subsection \<open>The signed amount of a ledger row\<close>

text \<open>
  The signed sum in the words of the specification: a deposit counts with its amount, a
  withdrawal with the negated amount.
\<close>

definition spec_signedAmount :: "BackSafeTransaction \<Rightarrow> number" where
  "spec_signedAmount t = (case t_type t of Deposit \<Rightarrow> t_amount t | Withdrawal \<Rightarrow> - t_amount t)"

section \<open>A store to evaluate on\<close>

text \<open>
  One account (\<open>u1\<close>) with two daily entries, a withdrawal and three ledger rows, beside
  an entry of a second account. The back-safe balance of \<open>u1\<close> is
  \<open>450 + 50 - 100 = 400\<close>; the entry of the latest date left 345 in the front safe.
\<close>

definition ex_entries :: "daily_entries_row list" where
  "ex_entries =
     [\<lparr> de_id = ''e1'', de_user_id = ''u1'', de_date = ''2024-03-01'', de_cash_in = 500,
        de_deposited = 400, de_to_back_safe = 50, de_actual_left_in_front = 150,
        de_left_in_front = Some 150, de_difference = 0, de_discrepancy_reason = None,
        de_manually_approved = False, de_approval_note = None, de_approved_at = None,
        de_created_at = ''2024-03-01T18:00:00.000Z'', de_updated_at = ''2024-03-01T18:00:00.000Z'' \<rparr>,
      \<lparr> de_id = ''e2'', de_user_id = ''u1'', de_date = ''2024-03-10'', de_cash_in = 300,
        de_deposited = 100, de_to_back_safe = 0, de_actual_left_in_front = 345,
        de_left_in_front = Some 350, de_difference = - 5, de_discrepancy_reason = None,
        de_manually_approved = False, de_approval_note = None, de_approved_at = None,
        de_created_at = ''2024-03-10T18:00:00.000Z'', de_updated_at = ''2024-03-10T18:00:00.000Z'' \<rparr>,
      \<lparr> de_id = ''e3'', de_user_id = ''u2'', de_date = ''2024-03-20'', de_cash_in = 900,
        de_deposited = 0, de_to_back_safe = 0, de_actual_left_in_front = 900,
        de_left_in_front = Some 900, de_difference = 0, de_discrepancy_reason = None,
        de_manually_approved = False, de_approval_note = None, de_approved_at = None,
        de_created_at = ''2024-03-20T18:00:00.000Z'', de_updated_at = ''2024-03-20T18:00:00.000Z'' \<rparr>]"

definition ex_withdrawals :: "back_safe_withdrawals_row list" where
  "ex_withdrawals =
     [\<lparr> bw_id = ''w1'', bw_user_id = ''u1'', bw_date = ''2024-03-05'', bw_amount = 100,
        bw_reason = ''bank drop'', bw_created_at = ''2024-03-05T09:00:00.000Z'',
        bw_updated_at = ''2024-03-05T09:00:00.000Z'' \<rparr>]"

definition ex_ledger :: "back_safe_transactions_row list" where
  "ex_ledger =
     [\<lparr> bt_id = ''t0'', bt_user_id = ''u1'', bt_date = ''2024-02-20'', bt_type = Deposit,
        bt_amount = 450, bt_reason = ''From daily entry'', bt_entry_id = None,
        bt_withdrawal_id = None, bt_created_at = ''2024-02-20T18:00:00.000Z'' \<rparr>,
      \<lparr> bt_id = ''t1'', bt_user_id = ''u1'', bt_date = ''2024-03-01'', bt_type = Deposit,
        bt_amount = 50, bt_reason = ''From daily entry'', bt_entry_id = Some ''e1'',
        bt_withdrawal_id = None, bt_created_at = ''2024-03-01T18:00:00.000Z'' \<rparr>,
      \<lparr> bt_id = ''t2'', bt_user_id = ''u1'', bt_date = ''2024-03-05'', bt_type = Withdrawal,
        bt_amount = 100, bt_reason = ''bank drop'', bt_entry_id = None,
        bt_withdrawal_id = Some ''w1'', bt_created_at = ''2024-03-05T09:00:00.000Z'' \<rparr>]"

definition ex_archives :: "monthly_archives_row list" where
  "ex_archives =
     [\<lparr> ma_user_id = ''u1'', ma_month = ''2024-01'', ma_starting_front_safe = 0,
        ma_starting_back_safe = 0, ma_ending_front_safe = 80, ma_ending_back_safe = 200,
        ma_is_closed = True, ma_closed_at = Some ''2024-02-01T08:00:00.000Z'' \<rparr>,
      \<lparr> ma_user_id = ''u1'', ma_month = ''2024-04'', ma_starting_front_safe = 0,
        ma_starting_back_safe = 0, ma_ending_front_safe = 7, ma_ending_back_safe = 9,
        ma_is_closed = True, ma_closed_at = Some ''2024-05-01T08:00:00.000Z'' \<rparr>,
      \<lparr> ma_user_id = ''u1'', ma_month = ''2024-02'', ma_starting_front_safe = 80,
        ma_starting_back_safe = 200, ma_ending_front_safe = 100, ma_ending_back_safe = 450,
        ma_is_closed = True, ma_closed_at = Some ''2024-03-01T08:00:00.000Z'' \<rparr>]"

definition ex_store :: store where
  "ex_store =
     \<lparr> user = Some ''u1'',
       daily_entries = ex_entries,
       back_safe_withdrawals = ex_withdrawals,
       back_safe_transactions = ex_ledger,
       monthly_archives = ex_archives \<rparr>"

text \<open>
  A second store: one account whose ledger holds three deposits of 0.10, 0.20 and 0.30
  made on the same day, each as the double the client receives for it.
\<close>

definition ex_cents_ledger :: "back_safe_transactions_row list" where
  "ex_cents_ledger =
     [\<lparr> bt_id = ''c1'', bt_user_id = ''u1'', bt_date = ''2024-03-01'', bt_type = Deposit,
        bt_amount = round_double 0.1, bt_reason = ''From daily entry'', bt_entry_id = None,
        bt_withdrawal_id = None, bt_created_at = ''2024-03-01T18:00:00.000Z'' \<rparr>,
      \<lparr> bt_id = ''c2'', bt_user_id = ''u1'', bt_date = ''2024-03-01'', bt_type = Deposit,
        bt_amount = round_double 0.2, bt_reason = ''From daily entry'', bt_entry_id = None,
        bt_withdrawal_id = None, bt_created_at = ''2024-03-01T18:05:00.000Z'' \<rparr>,
      \<lparr> bt_id = ''c3'', bt_user_id = ''u1'', bt_date = ''2024-03-01'', bt_type = Deposit,
        bt_amount = round_double 0.3, bt_reason = ''From daily entry'', bt_entry_id = None,
        bt_withdrawal_id = None, bt_created_at = ''2024-03-01T18:10:00.000Z'' \<rparr>]"

definition ex_cents_store :: store where
  "ex_cents_store =
     \<lparr> user = Some ''u1'',
       daily_entries = [],
       back_safe_withdrawals = [],
       back_safe_transactions = ex_cents_ledger,
       monthly_archives = [] \<rparr>"

section \<open>Properties\<close>

lemmas ex_defs =
  ex_store_def ex_entries_def ex_withdrawals_def ex_ledger_def ex_archives_def

lemmas query_defs =
  getEntries_def getWithdrawals_def getBackSafeTransactions_def getArchives_def
  entryOfRow_def withdrawalOfRow_def transactionOfRow_def archiveOfRow_def order_desc_def

subsection \<open>Ordering of the queries\<close>

lemma insort_key_map:
  "(\<And>x. k (f x) = k x) \<Longrightarrow> insort_key k (f x) (map f xs) = map f (insort_key k x xs)"
  by (induction xs) simp_all

lemma sort_key_map:
  "(\<And>x. k (f x) = k x) \<Longrightarrow> sort_key k (map f xs) = map f (sort_key k xs)"
  by (induction xs) (simp_all add: insort_key_map)

lemma order_desc_map:
  "(\<And>x. k (f x) = k x) \<Longrightarrow> order_desc k (map f xs) = map f (order_desc k xs)"
  by (simp add: order_desc_def sort_key_map rev_map)

lemma order_desc_sorted: "sorted_wrt (\<lambda>a b. k b \<le> k a) (order_desc k xs)"
proof -
  have "sorted_wrt (\<lambda>a b. k a \<le> k b) (sort_key k xs)"
    using sorted_sort_key[of k xs] by (simp add: sorted_map)
  then show ?thesis by (simp add: order_desc_def sorted_wrt_rev)
qed

lemma getEntries_sorted: "sorted_wrt (\<lambda>a b. e_date b \<le> e_date a) (getEntries s)"
proof (cases "user s")
  case None
  then show ?thesis by (simp add: getEntries_def)
next
  case (Some u)
  have "sorted_wrt (\<lambda>a b. de_date b \<le> de_date a)
          (order_desc de_date (filter (\<lambda>row. de_user_id row = u) (daily_entries s)))"
    by (rule order_desc_sorted)
  then show ?thesis using Some
    by (simp add: getEntries_def sorted_wrt_map entryOfRow_def)
qed

lemma getArchives_sorted: "sorted_wrt (\<lambda>a b. month b \<le> month a) (getArchives s)"
proof (cases "user s")
  case None
  then show ?thesis by (simp add: getArchives_def)
next
  case (Some u)
  have "sorted_wrt (\<lambda>a b. ma_month b \<le> ma_month a)
          (order_desc ma_month (filter (\<lambda>row. ma_user_id row = u) (monthly_archives s)))"
    by (rule order_desc_sorted)
  then show ?thesis using Some
    by (simp add: getArchives_def sorted_wrt_map archiveOfRow_def)
qed

text \<open>
  A write that maps the rows of a table and keeps the owner and the date of each row
  shows through the query as the same map.
\<close>

lemma getEntries_update:
  assumes "user s' = user s"
      and "daily_entries s' = map f (daily_entries s)"
      and "\<And>r. de_user_id (f r) = de_user_id r"
      and "\<And>r. de_date (f r) = de_date r"
      and "\<And>r. g (entryOfRow (f r)) = g (entryOfRow r)"
  shows "map g (getEntries s') = map g (getEntries s)"
proof (cases "user s")
  case None
  then show ?thesis using assms(1) by (simp add: getEntries_def)
next
  case (Some u)
  have flt: "filter (\<lambda>row. de_user_id row = u) (map f (daily_entries s))
           = map f (filter (\<lambda>row. de_user_id row = u) (daily_entries s))"
    by (simp add: filter_map comp_def assms(3))
  have ord: "order_desc de_date (map f xs) = map f (order_desc de_date xs)" for xs
    by (rule order_desc_map) (rule assms(4))
  show ?thesis using Some assms(1)
    by (simp add: getEntries_def assms(2) flt ord comp_def assms(5))
qed

lemma getBackSafeTransactions_update:
  assumes "user s' = user s"
      and "back_safe_transactions s' = map f (back_safe_transactions s)"
      and "\<And>r. bt_user_id (f r) = bt_user_id r"
      and "\<And>r. bt_date (f r) = bt_date r"
      and "\<And>r. g (transactionOfRow (f r)) = g (transactionOfRow r)"
  shows "map g (getBackSafeTransactions s') = map g (getBackSafeTransactions s)"
proof (cases "user s")
  case None
  then show ?thesis using assms(1) by (simp add: getBackSafeTransactions_def)
next
  case (Some u)
  have flt: "filter (\<lambda>row. bt_user_id row = u) (map f (back_safe_transactions s))
           = map f (filter (\<lambda>row. bt_user_id row = u) (back_safe_transactions s))"
    by (simp add: filter_map comp_def assms(3))
  have ord: "order_desc bt_date (map f xs) = map f (order_desc bt_date xs)" for xs
    by (rule order_desc_map) (rule assms(4))
  show ?thesis using Some assms(1)
    by (simp add: getBackSafeTransactions_def assms(2) flt ord comp_def assms(5))
qed

lemma find_sorted_desc:
  "sorted_wrt (\<lambda>a b. (k b :: string) \<le> k a) xs \<Longrightarrow> find P xs = Some p \<Longrightarrow>
     p \<in> set xs \<and> P p \<and> (\<forall>q\<in>set xs. P q \<longrightarrow> k q \<le> k p)"
  by (induction xs) (auto split: if_splits)

lemma find_None_filter: "find P xs = None \<longleftrightarrow> filter P xs = []"
  by (induction xs) auto

subsection \<open>Rounding to a double\<close>

text \<open>
  \<open>binade x\<close> is the exponent of the power of two at or below \<open>\<bar>x\<bar>\<close>; rounding moves
  a number by at most half a unit in the last place, and leaves a whole number below
  \<open>2\<^sup>5\<^sup>3\<close> as it is.
\<close>

lemma binade_ge1:
  assumes "1 \<le> \<bar>x\<bar>"
  shows "2 powi binade x \<le> \<bar>x\<bar> \<and> \<bar>x\<bar> < 2 powi (binade x + 1)"
proof -
  let ?n = "\<lfloor>\<bar>x\<bar>\<rfloor>"
  have n: "0 < ?n" using assms by linarith
  from bitlen_bounds[OF n] have lo: "2 ^ nat (bitlen ?n - 1) \<le> ?n" and hi: "?n < 2 ^ nat (bitlen ?n)"
    by auto
  have b1: "1 \<le> bitlen ?n" using n by (simp add: bitlen_alt_def)
  have e: "binade x = bitlen ?n - 1" using assms by (simp add: binade_def)
  have "(2::real) powi (bitlen ?n - 1) = 2 ^ nat (bitlen ?n - 1)"
    using b1 by (simp add: power_int_def)
  also have "\<dots> = of_int (2 ^ nat (bitlen ?n - 1))" by simp
  also have "\<dots> \<le> of_int ?n" using lo by (rule of_int_le_iff[THEN iffD2])
  also have "\<dots> \<le> \<bar>x\<bar>" by simp
  finally have A: "2 powi binade x \<le> \<bar>x\<bar>" by (simp add: e)
  have "?n + 1 \<le> 2 ^ nat (bitlen ?n)" using hi by simp
  then have "real_of_int (?n + 1) \<le> of_int (2 ^ nat (bitlen ?n))" by (rule of_int_le_iff[THEN iffD2])
  moreover have "\<bar>x\<bar> < real_of_int (?n + 1)" by linarith
  moreover have "real_of_int (2 ^ nat (bitlen ?n)) = 2 ^ nat (bitlen ?n)" by simp
  ultimately have "\<bar>x\<bar> < 2 ^ nat (bitlen ?n)" by linarith
  also have "\<dots> = 2 powi (bitlen ?n)" using b1 by (simp add: power_int_def)
  finally have B: "\<bar>x\<bar> < 2 powi (binade x + 1)" by (simp add: e)
  from A B show ?thesis ..
qed

lemma binade_lt1:
  assumes "x \<noteq> 0" and "\<bar>x\<bar> < 1"
  shows "2 powi binade x \<le> \<bar>x\<bar> \<and> \<bar>x\<bar> < 2 powi (binade x + 1)"
proof -
  let ?y = "1 / \<bar>x\<bar>"
  let ?m = "\<lceil>?y\<rceil> - 1"
  have ax: "0 < \<bar>x\<bar>" using assms(1) by simp
  have y1: "1 < ?y" using assms ax by simp
  have m: "0 < ?m" using y1 by linarith
  from bitlen_bounds[OF m] have lo: "2 ^ nat (bitlen ?m - 1) \<le> ?m" and hi: "?m < 2 ^ nat (bitlen ?m)"
    by auto
  have b1: "1 \<le> bitlen ?m" using m by (simp add: bitlen_alt_def)
  have e: "binade x = - bitlen ?m" using assms by (simp add: binade_def)
  have "\<lceil>?y\<rceil> \<le> 2 ^ nat (bitlen ?m)" using hi by simp
  then have "real_of_int \<lceil>?y\<rceil> \<le> of_int (2 ^ nat (bitlen ?m))" by (rule of_int_le_iff[THEN iffD2])
  moreover have "?y \<le> real_of_int \<lceil>?y\<rceil>" by simp
  moreover have "real_of_int (2 ^ nat (bitlen ?m)) = 2 ^ nat (bitlen ?m)" by simp
  ultimately have yle: "?y \<le> 2 ^ nat (bitlen ?m)" by linarith
  have "real_of_int (2 ^ nat (bitlen ?m - 1)) \<le> of_int ?m" using lo by (rule of_int_le_iff[THEN iffD2])
  moreover have "real_of_int ?m < ?y" by linarith
  moreover have "real_of_int (2 ^ nat (bitlen ?m - 1)) = 2 ^ nat (bitlen ?m - 1)" by simp
  ultimately have ygt: "2 ^ nat (bitlen ?m - 1) < ?y" by linarith
  have A: "2 powi binade x \<le> \<bar>x\<bar>"
  proof -
    have "1 / 2 ^ nat (bitlen ?m) \<le> \<bar>x\<bar>"
      using yle ax by (simp add: field_simps)
    moreover have "(2::real) powi (- bitlen ?m) = 1 / 2 ^ nat (bitlen ?m)"
      using b1 by (simp add: power_int_def field_simps)
    ultimately show ?thesis by (simp add: e)
  qed
  have B: "\<bar>x\<bar> < 2 powi (binade x + 1)"
  proof -
    have "\<bar>x\<bar> < 1 / 2 ^ nat (bitlen ?m - 1)"
      using ygt ax by (simp add: field_simps)
    moreover have "(2::real) powi (- bitlen ?m + 1) = 1 / 2 ^ nat (bitlen ?m - 1)"
      using b1 by (simp add: power_int_def field_simps nat_diff_distrib)
    ultimately show ?thesis by (simp add: e)
  qed
  from A B show ?thesis ..
qed

lemma binade_bounds:
  "x \<noteq> 0 \<Longrightarrow> 2 powi binade x \<le> \<bar>x\<bar> \<and> \<bar>x\<bar> < 2 powi (binade x + 1)"
  using binade_ge1[of x] binade_lt1[of x] by (cases "1 \<le> \<bar>x\<bar>") auto

lemma roundTiesToEven_of_int: "roundTiesToEven (of_int z) = z"
  by (simp add: roundTiesToEven_def)

lemma round_double_int:
  assumes "x \<in> \<int>" and "\<bar>x\<bar> < 2 ^ 53"
  shows "round_double x = x"
proof (cases "x = 0")
  case True
  then show ?thesis by (simp add: round_double_def)
next
  case False
  from assms(1) obtain z where z: "x = of_int z" by (auto elim: Ints_cases)
  with False have "1 \<le> \<bar>x\<bar>" by (simp flip: of_int_abs) 
  from binade_ge1[OF this] have lo: "2 powi binade x \<le> \<bar>x\<bar>" by simp
  have e0: "0 \<le> binade x" using \<open>1 \<le> \<bar>x\<bar>\<close> by (simp add: binade_def bitlen_alt_def)
  have "(2::real) powi binade x < 2 powi 53" using lo assms(2) by simp
  then have "binade x < 53"
    by (rule power_int_le_imp_less_exp[rotated]) simp_all
  then have e52: "binade x \<le> 52" by simp
  define k where "k = nat (52 - binade x)"
  have u: "(2::real) powi (binade x - 52) = 1 / 2 ^ k"
    using e52 by (simp add: k_def power_int_def field_simps)
  have "x / (1 / 2 ^ k) = of_int (z * 2 ^ k)" by (simp add: z)
  then have r: "roundTiesToEven (x / (1 / 2 ^ k)) = z * 2 ^ k"
    by (simp only: roundTiesToEven_of_int)
  have "round_double x = of_int (z * 2 ^ k) * (1 / 2 ^ k)"
    using False by (simp only: round_double_def Let_def u r if_False)
  also have "\<dots> = x" by (simp add: z)
  finally show ?thesis .
qed

lemma roundTiesToEven_nearest: "\<bar>of_int (roundTiesToEven y) - y\<bar> \<le> 1 / 2"
  by (simp add: roundTiesToEven_def Let_def)

lemma round_double_nearest:
  assumes "x \<noteq> 0"
  shows "\<bar>round_double x - x\<bar> \<le> 2 powi (binade x - 53)"
proof -
  define u :: real where "u = 2 powi (binade x - 52)"
  have u: "0 < u" by (simp add: u_def)
  have "round_double x - x = (of_int (roundTiesToEven (x / u)) - x / u) * u"
    using assms u by (simp add: round_double_def Let_def u_def field_simps)
  then have "\<bar>round_double x - x\<bar> = \<bar>of_int (roundTiesToEven (x / u)) - x / u\<bar> * u"
    using u by (simp add: abs_mult)
  also have "\<dots> \<le> 1 / 2 * u"
    using roundTiesToEven_nearest[of "x / u"] u by (intro mult_right_mono) simp_all
  also have "\<dots> = 2 powi (binade x - 53)"
    by (simp add: u_def power_int_diff)
  finally show ?thesis .
qed

subsection \<open>The two balances\<close>

lemma backSafeStep_signed: "backSafeStep b t = round_double (b + spec_signedAmount t)"
  by (cases "t_type t") (simp_all add: backSafeStep_def spec_signedAmount_def)

lemma foldl_backSafeStep:
  "foldl backSafeStep b ts
     = foldl (\<lambda>acc a. round_double (acc + a)) b (map spec_signedAmount ts)"
  by (induction ts arbitrary: b) (simp_all add: backSafeStep_signed)

text \<open>
  While every amount is a whole number and the absolute amounts sum to less than
  \<open>2\<^sup>5\<^sup>3\<close>, no step of the fold rounds.
\<close>

lemma foldl_backSafeStep_exact:
  "\<forall>t\<in>set ts. t_amount t \<in> \<int> \<Longrightarrow> b \<in> \<int> \<Longrightarrow>
   \<bar>b\<bar> + sum_list (map (\<lambda>t. \<bar>t_amount t\<bar>) ts) < 2 ^ 53 \<Longrightarrow>
   foldl backSafeStep b ts = b + sum_list (map spec_signedAmount ts)"
proof (induction ts arbitrary: b)
  case Nil
  then show ?case by simp
next
  case (Cons t ts)
  have a: "t_amount t \<in> \<int>" using Cons.prems(1) by simp
  have sa: "spec_signedAmount t \<in> \<int>" "\<bar>spec_signedAmount t\<bar> = \<bar>t_amount t\<bar>"
    using a by (cases "t_type t"; simp add: spec_signedAmount_def)+
  have nn: "0 \<le> sum_list (map (\<lambda>t. \<bar>t_amount t\<bar>) ts)"
    by (rule sum_list_nonneg) auto
  have int: "b + spec_signedAmount t \<in> \<int>" using Cons.prems(2) sa(1) by simp
  have bnd: "\<bar>b + spec_signedAmount t\<bar> + sum_list (map (\<lambda>t. \<bar>t_amount t\<bar>) ts) < 2 ^ 53"
    using Cons.prems(3) sa(2) by simp
  have step: "backSafeStep b t = b + spec_signedAmount t"
    using int bnd nn by (simp add: backSafeStep_signed round_double_int)
  have "foldl backSafeStep (b + spec_signedAmount t) ts
          = b + spec_signedAmount t + sum_list (map spec_signedAmount ts)"
    using Cons.prems(1) int bnd by (intro Cons.IH) simp_all
  then show ?case by (simp add: step)
qed

lemma getBalances_backSafe:
  "backSafe (getBalances s now) = foldl backSafeStep 0 (getBackSafeTransactions s)"
  by (cases "user s") (simp_all add: getBalances_def getBackSafeTransactions_def)

lemma sum_list_signed_mset:
  "mset ts = mset ts' \<Longrightarrow>
     sum_list (map spec_signedAmount ts) = sum_list (map spec_signedAmount ts')"
  by (metis mset_map sum_mset_sum_list)

lemma signedAmount_transactionOfRow:
  "spec_signedAmount (transactionOfRow r)
     = (case bt_type r of Deposit \<Rightarrow> bt_amount r | Withdrawal \<Rightarrow> - bt_amount r)"
  by (cases "bt_type r") (simp_all add: spec_signedAmount_def transactionOfRow_def)

lemma getPreviousDayBalance_latest:
  "getPreviousDayBalance s now = (case getEntries s of [] \<Rightarrow> 0 | e # _ \<Rightarrow> leftInFront e)"
  by (cases "user s") (simp_all add: getPreviousDayBalance_def getBalances_def split: list.splits)

lemma getBalances_frontSafe:
  "frontSafe (getBalances s now) = (case getEntries s of [] \<Rightarrow> 0 | e # _ \<Rightarrow> leftInFront e)"
  by (cases "user s") (simp_all add: getBalances_def getEntries_def)

lemma ex_store_backSafe: "backSafe (getBalances ex_store now) = 400"
  by (simp add: getBalances_def backSafeStep_def round_double_int ex_defs query_defs)

subsection \<open>Claims\<close>

text \<open>
  C1 (as amended). The claim reads: the previous balance used for a new entry is the
  front-safe balance as of the most recent existing entry dated strictly before the new
  entry, also for a backdated entry. \<^verbatim>\<open>getPreviousDayBalance\<close> takes no date. What
  holds: the previous balance it returns is the amount left in front by the entry of the
  latest date in the store, or 0 when the store has no entry, whatever the date of the new
  entry; it is the balance as of the most recent entry strictly before the new date
  whenever every existing entry is dated strictly before the new entry.
\<close>

theorem getPreviousDayBalance_latest_entry:
  "getPreviousDayBalance s now = (case getEntries s of [] \<Rightarrow> 0 | e # _ \<Rightarrow> leftInFront e)
   \<and> ((\<forall>e\<in>set (getEntries s). e_date e < date) \<longrightarrow>
        getPreviousDayBalance s now = spec_previousBalance date s)"
proof -
  have "(\<forall>e\<in>set (getEntries s). e_date e < date) \<Longrightarrow>
        filter (\<lambda>e. e_date e < date) (getEntries s) = getEntries s"
    by simp
  then show ?thesis
    by (auto simp add: getPreviousDayBalance_latest spec_previousBalance_def)
qed

theorem getPreviousDayBalance_latest_entry_witness:
  "list_all (\<lambda>e. e_date e < ''2024-03-11'') (getEntries ex_store)
   \<and> getPreviousDayBalance ex_store ''2024-03-11T08:00:00.000Z''
       = spec_previousBalance ''2024-03-11'' ex_store
   \<and> spec_previousBalance ''2024-03-11'' ex_store = 345"
  using getPreviousDayBalance_latest_entry
          [of ex_store "''2024-03-11T08:00:00.000Z''" "''2024-03-11''"]
  by (simp add: spec_previousBalance_def ex_defs query_defs)

text \<open>
  The claim as written fails for a backdated entry: with entries on 2024-03-01 (150 left
  in front) and 2024-03-10 (345 left in front), an entry submitted for 2024-03-05 has
  the chronological predecessor's balance 150, and \<^verbatim>\<open>getPreviousDayBalance\<close> returns 345.
\<close>

theorem getPreviousDayBalance_backdated_counterexample:
  "spec_previousBalance ''2024-03-05'' ex_store = 150
   \<and> getPreviousDayBalance ex_store ''2024-03-11T08:00:00.000Z'' = 345
   \<and> getPreviousDayBalance ex_store ''2024-03-11T08:00:00.000Z''
       \<noteq> spec_previousBalance ''2024-03-05'' ex_store"
  by (simp add: getPreviousDayBalance_def spec_previousBalance_def ex_defs query_defs)

text \<open>
  C2 (as amended). The claim reads: the back-safe balance equals the signed sum of the
  ledger, regardless of the order the transactions are folded in. The fold adds and
  subtracts doubles, and each step rounds. What holds: the balance is the fold of the
  ledger in the order \<^verbatim>\<open>getBackSafeTransactions\<close> returns it, starting from 0, every
  deposit added and every withdrawal subtracted, each step rounded to the nearest double;
  it equals the exact signed sum, whatever the order of the fold, when every amount is a
  whole number and the absolute amounts sum to less than \<open>2\<^sup>5\<^sup>3\<close>.
\<close>

theorem getBalances_backSafe_rounded_fold:
  "backSafe (getBalances s now)
     = foldl (\<lambda>acc t. round_double (acc + spec_signedAmount t)) 0 (getBackSafeTransactions s)
   \<and> ((\<forall>t\<in>set ts. t_amount t \<in> \<int>)
        \<and> sum_list (map (\<lambda>t. \<bar>t_amount t\<bar>) ts) < 2 ^ 53
        \<and> mset ts = mset (getBackSafeTransactions s) \<longrightarrow>
      backSafe (getBalances s now) = sum_list (map spec_signedAmount (getBackSafeTransactions s))
      \<and> foldl backSafeStep 0 ts = backSafe (getBalances s now))"
proof (intro conjI impI)
  show "backSafe (getBalances s now)
     = foldl (\<lambda>acc t. round_double (acc + spec_signedAmount t)) 0 (getBackSafeTransactions s)"
    by (simp add: getBalances_backSafe foldl_backSafeStep foldl_map)
next
  let ?led = "getBackSafeTransactions s"
  assume h: "(\<forall>t\<in>set ts. t_amount t \<in> \<int>)
        \<and> sum_list (map (\<lambda>t. \<bar>t_amount t\<bar>) ts) < 2 ^ 53
        \<and> mset ts = mset ?led"
  then have m: "mset ts = mset ?led" by simp
  have set_eq: "set ?led = set ts" using m by (metis set_mset_mset)
  have abs_eq: "sum_list (map (\<lambda>t. \<bar>t_amount t\<bar>) ?led) = sum_list (map (\<lambda>t. \<bar>t_amount t\<bar>) ts)"
    using m by (metis mset_map sum_mset_sum_list)
  have ts: "foldl backSafeStep 0 ts = sum_list (map spec_signedAmount ts)"
    using foldl_backSafeStep_exact[of ts 0] h by simp
  have led: "foldl backSafeStep 0 ?led = sum_list (map spec_signedAmount ?led)"
    using foldl_backSafeStep_exact[of ?led 0] h set_eq abs_eq by simp
  show "backSafe (getBalances s now) = sum_list (map spec_signedAmount ?led)"
    by (simp add: getBalances_backSafe led)
  show "foldl backSafeStep 0 ts = backSafe (getBalances s now)"
    using sum_list_signed_mset[OF m] by (simp add: getBalances_backSafe led ts)
qed

theorem getBalances_backSafe_rounded_fold_witness:
  "list_all (\<lambda>t. t_amount t \<in> \<int>) (rev (getBackSafeTransactions ex_store))
   \<and> sum_list (map (\<lambda>t. \<bar>t_amount t\<bar>) (rev (getBackSafeTransactions ex_store))) = 600
   \<and> mset (rev (getBackSafeTransactions ex_store)) = mset (getBackSafeTransactions ex_store)
   \<and> sum_list (map spec_signedAmount (getBackSafeTransactions ex_store)) = 400
   \<and> foldl backSafeStep 0 (rev (getBackSafeTransactions ex_store)) = 400"
proof -
  have led: "map (\<lambda>t. (t_type t, t_amount t)) (getBackSafeTransactions ex_store)
               = [(Withdrawal, 100), (Deposit, 50), (Deposit, 450)]"
    by (simp add: ex_defs query_defs)
  have ints: "\<forall>t\<in>set (rev (getBackSafeTransactions ex_store)). t_amount t \<in> \<int>"
    by (simp add: ex_defs query_defs)
  have abs: "sum_list (map (\<lambda>t. \<bar>t_amount t\<bar>) (rev (getBackSafeTransactions ex_store))) = 600"
    by (simp add: ex_defs query_defs)
  have m: "mset (rev (getBackSafeTransactions ex_store)) = mset (getBackSafeTransactions ex_store)"
    by simp
  from ints have la: "list_all (\<lambda>t. t_amount t \<in> \<int>) (rev (getBackSafeTransactions ex_store))"
    by (simp only: list_all_iff)
  show ?thesis
    using la abs m ints
      getBalances_backSafe_rounded_fold
        [of ex_store "''2024-03-11T08:00:00.000Z''" "rev (getBackSafeTransactions ex_store)"]
    by (simp add: ex_store_backSafe)
qed

text \<open>
  The claim as written fails on cent amounts: with deposits of 0.10, 0.20 and 0.30 on
  one day the balance returned is \<open>5404319552844595 / 2\<^sup>5\<^sup>3\<close> (the double printed as
  0.6), the same rows folded in the opposite order give \<open>5404319552844596 / 2\<^sup>5\<^sup>3\<close>
  (printed as 0.6000000000000001), and the exact signed sum of the three doubles is
  neither.
\<close>

theorem getBalances_backSafe_order_counterexample:
  "mset (rev (getBackSafeTransactions ex_cents_store)) = mset (getBackSafeTransactions ex_cents_store)
   \<and> backSafe (getBalances ex_cents_store ''2024-03-02T08:00:00.000Z'') = 5404319552844595 / 2 ^ 53
   \<and> foldl backSafeStep 0 (rev (getBackSafeTransactions ex_cents_store)) = 5404319552844596 / 2 ^ 53
   \<and> sum_list (map spec_signedAmount (getBackSafeTransactions ex_cents_store))
       = 21617278211378381 / 2 ^ 55
   \<and> foldl backSafeStep 0 (rev (getBackSafeTransactions ex_cents_store))
       \<noteq> backSafe (getBalances ex_cents_store ''2024-03-02T08:00:00.000Z'')
   \<and> backSafe (getBalances ex_cents_store ''2024-03-02T08:00:00.000Z'')
       \<noteq> sum_list (map spec_signedAmount (getBackSafeTransactions ex_cents_store))"
proof -
  have led: "map spec_signedAmount (getBackSafeTransactions ex_cents_store)
               = [round_double 0.3, round_double 0.2, round_double 0.1]"
    by (simp add: ex_cents_store_def ex_cents_ledger_def query_defs spec_signedAmount_def)
  have d1: "round_double 0.1 = 3602879701896397 / 2 ^ 55" by code_simp
  have d2: "round_double 0.2 = 3602879701896397 / 2 ^ 54" by code_simp
  have d3: "round_double 0.3 = 5404319552844595 / 2 ^ 54" by code_simp
  have down: "round_double (round_double (round_double (0 + round_double 0.3) + round_double 0.2)
                 + round_double 0.1) = 5404319552844595 / 2 ^ 53"
    by code_simp
  have up: "round_double (round_double (round_double (0 + round_double 0.1) + round_double 0.2)
                 + round_double 0.3) = 5404319552844596 / 2 ^ 53"
    by code_simp
  have bal: "backSafe (getBalances ex_cents_store ''2024-03-02T08:00:00.000Z'')
               = 5404319552844595 / 2 ^ 53"
    by (simp only: getBalances_backSafe foldl_backSafeStep led foldl.simps down)
  have opp: "foldl backSafeStep 0 (rev (getBackSafeTransactions ex_cents_store))
               = 5404319552844596 / 2 ^ 53"
    by (simp only: foldl_backSafeStep led rev_map[symmetric] rev.simps append.simps
          foldl.simps up)
  have sum: "sum_list (map spec_signedAmount (getBackSafeTransactions ex_cents_store))
               = 21617278211378381 / 2 ^ 55"
    by (simp only: led d1 d2 d3 sum_list.Cons sum_list.Nil) simp
  show ?thesis
    by (simp add: bal opp sum)
qed


text \<open>
  C4 (the code departs from the claim). The claim reads: deleting an entry also deletes
  its linked deposit row, so the back-safe balance no longer includes the amount.
  \<^verbatim>\<open>deleteEntry\<close> deletes the entry only; the schema clears the link of the ledger row
  and keeps the row. In the example, entry \<open>e1\<close> is gone after the call, its deposit of
  50 is still in the ledger, and the balance is still 400 rather than 350.
\<close>

theorem deleteEntry_keeps_ledger_row:
  "map de_id (daily_entries (deleteEntry ''e1'' ex_store)) = [''e2'', ''e3'']
   \<and> map (\<lambda>t. (bt_id t, bt_type t, bt_amount t, bt_entry_id t))
        (back_safe_transactions (deleteEntry ''e1'' ex_store))
       = [(''t0'', Deposit, 450, None), (''t1'', Deposit, 50, None), (''t2'', Withdrawal, 100, None)]
   \<and> backSafe (getBalances ex_store ''2024-03-11T08:00:00.000Z'') = 400
   \<and> backSafe (getBalances (deleteEntry ''e1'' ex_store) ''2024-03-11T08:00:00.000Z'') = 400"
  by (simp add: deleteEntry_def entry_id_set_null_def getBalances_def backSafeStep_def
        round_double_int ex_defs query_defs)

text \<open>In every store, \<^verbatim>\<open>deleteEntry\<close> leaves the back-safe balance as it was.\<close>

lemma deleteEntry_backSafe_unchanged:
  "backSafe (getBalances (deleteEntry i s) now) = backSafe (getBalances s now)"
proof (cases "user s")
  case None
  then show ?thesis by (simp add: deleteEntry_def)
next
  case (Some u)
  let ?deleted = "map de_id (filter (\<lambda>row. de_id row = i \<and> de_user_id row = u) (daily_entries s))"
  have "map spec_signedAmount (getBackSafeTransactions (deleteEntry i s))
      = map spec_signedAmount (getBackSafeTransactions s)"
    by (rule getBackSafeTransactions_update
          [where f = "\<lambda>t. case bt_entry_id t of
                             None \<Rightarrow> t
                           | Some j \<Rightarrow> if j \<in> set ?deleted then t\<lparr>bt_entry_id := None\<rparr> else t"])
       (simp_all add: deleteEntry_def Some entry_id_set_null_def Let_def
          signedAmount_transactionOfRow split: option.splits TransactionType.splits)
  then show ?thesis
    by (simp add: getBalances_backSafe foldl_backSafeStep)
qed

text \<open>
  C5 (the code departs from the claim). The claim reads: editing a withdrawal updates the
  withdrawal record and the amount of its linked ledger row. \<^verbatim>\<open>updateWithdrawal\<close>
  writes to \<^verbatim>\<open>back_safe_withdrawals\<close> only. In the example, withdrawal \<open>w1\<close> of 100
  is edited to 60: the record carries 60, its ledger row still carries 100, and the
  balance is still 400 rather than 440.
\<close>

theorem updateWithdrawal_leaves_transaction_stale:
  "(case handleEditSubmit (loadData ex_store ''2024-03-11T08:00:00.000Z'') 100
           (find (\<lambda>w. w_id w = ''w1'') (getWithdrawals ex_store)) 60 ''bank drop''
           ''2024-03-11T08:00:00.000Z'' ex_store of
      (r, s') \<Rightarrow>
        r = Inr ()
        \<and> map (\<lambda>w. (bw_id w, bw_amount w)) (back_safe_withdrawals s') = [(''w1'', 60)]
        \<and> map (\<lambda>t. (bt_id t, bt_amount t))
             (filter (\<lambda>t. bt_withdrawal_id t = Some ''w1'') (back_safe_transactions s'))
            = [(''t2'', 100)]
        \<and> backSafe (getBalances s' ''2024-03-11T08:00:00.000Z'') = 400)"
  by (simp add: handleEditSubmit_def loadData_def updateWithdrawal_def getBalances_def
        backSafeStep_def round_double_int ex_defs query_defs)

text \<open>In every store, \<^verbatim>\<open>updateWithdrawal\<close> leaves the ledger as it was.\<close>

lemma updateWithdrawal_ledger_unchanged:
  "back_safe_transactions (updateWithdrawal i amount reason now s) = back_safe_transactions s"
  by (cases "user s") (simp_all add: updateWithdrawal_def)

text \<open>
  C6. A withdrawal request whose amount exceeds the back-safe balance the form has
  loaded stops with the insufficient-funds error, and the store is the same afterwards:
  no withdrawal record, no ledger row, the same balance.
\<close>

theorem handleSubmit_insufficient_funds:
  assumes "amountNum > loadData s now0"
  shows "case handleSubmit (loadData s now0) amountNum reason newId txId now s of
           (r, s') \<Rightarrow>
             r = Inl InsufficientFundsError
             \<and> s' = s
             \<and> back_safe_withdrawals s' = back_safe_withdrawals s
             \<and> back_safe_transactions s' = back_safe_transactions s
             \<and> backSafe (getBalances s' now') = backSafe (getBalances s now')"
  using assms by (simp add: handleSubmit_def)

theorem handleSubmit_insufficient_funds_witness:
  "450 > loadData ex_store ''2024-03-11T08:00:00.000Z''
   \<and> handleSubmit (loadData ex_store ''2024-03-11T08:00:00.000Z'') 450 ''bank drop''
         ''w2'' ''t3'' ''2024-03-11T08:00:01.000Z'' ex_store
       = (Inl InsufficientFundsError, ex_store)"
proof -
  have h: "450 > loadData ex_store ''2024-03-11T08:00:00.000Z''"
    by (simp add: loadData_def ex_store_backSafe)
  show ?thesis
    using h handleSubmit_insufficient_funds
              [OF h, where reason = "''bank drop''" and newId = "''w2''" and txId = "''t3''"
                 and now = "''2024-03-11T08:00:01.000Z''"]
    by (auto split: prod.splits)
qed

text \<open>
  C7. Every entry read from the store is balanced exactly when the absolute value of its
  difference is below 0.01; approving an entry and removing an approval change neither
  the difference nor the balanced flag of any entry.
\<close>

theorem isBalanced_difference_only:
  "(\<forall>e\<in>set (getEntries s). isBalanced e = (\<bar>difference e\<bar> < 0.01))
   \<and> map (\<lambda>e. (e_id e, difference e, isBalanced e)) (getEntries (approveEntry i approvalNote' now s))
       = map (\<lambda>e. (e_id e, difference e, isBalanced e)) (getEntries s)
   \<and> map (\<lambda>e. (e_id e, difference e, isBalanced e)) (getEntries (removeApproval i now s))
       = map (\<lambda>e. (e_id e, difference e, isBalanced e)) (getEntries s)"
proof (intro conjI)
  show "\<forall>e\<in>set (getEntries s). isBalanced e = (\<bar>difference e\<bar> < 0.01)"
    by (cases "user s") (auto simp add: getEntries_def entryOfRow_def)
next
  show "map (\<lambda>e. (e_id e, difference e, isBalanced e)) (getEntries (approveEntry i approvalNote' now s))
       = map (\<lambda>e. (e_id e, difference e, isBalanced e)) (getEntries s)"
  proof (cases "user s")
    case None
    then show ?thesis by (simp add: approveEntry_def)
  next
    case (Some u)
    show ?thesis
      by (rule getEntries_update
            [where f = "\<lambda>row. if de_id row = i \<and> de_user_id row = u
                               then row\<lparr> de_manually_approved := True,
                                         de_approval_note := Some approvalNote',
                                         de_approved_at := Some now,
                                         de_updated_at := now \<rparr>
                               else row"])
         (simp_all add: approveEntry_def Some entryOfRow_def)
  qed
next
  show "map (\<lambda>e. (e_id e, difference e, isBalanced e)) (getEntries (removeApproval i now s))
       = map (\<lambda>e. (e_id e, difference e, isBalanced e)) (getEntries s)"
  proof (cases "user s")
    case None
    then show ?thesis by (simp add: removeApproval_def)
  next
    case (Some u)
    show ?thesis
      by (rule getEntries_update
            [where f = "\<lambda>row. if de_id row = i \<and> de_user_id row = u
                               then row\<lparr> de_manually_approved := False,
                                         de_approval_note := None,
                                         de_approved_at := None,
                                         de_updated_at := now \<rparr>
                               else row"])
         (simp_all add: removeApproval_def Some entryOfRow_def)
  qed
qed

theorem isBalanced_difference_only_witness:
  "map (\<lambda>e. (e_id e, difference e, isBalanced e)) (getEntries ex_store)
     = [(''e2'', - 5, False), (''e1'', 0, True)]
   \<and> map (\<lambda>e. (e_id e, difference e, isBalanced e, manuallyApproved e))
        (getEntries (approveEntry ''e2'' ''counted twice'' ''2024-03-11T08:00:00.000Z'' ex_store))
     = [(''e2'', - 5, False, True), (''e1'', 0, True, False)]
   \<and> map (\<lambda>e. (e_id e, difference e, isBalanced e))
        (getEntries (removeApproval ''e2'' ''2024-03-11T08:00:00.000Z'' ex_store))
     = [(''e2'', - 5, False), (''e1'', 0, True)]"
  using isBalanced_difference_only
          [of ex_store "''e2''" "''counted twice''" "''2024-03-11T08:00:00.000Z''"]
  by (simp add: approveEntry_def ex_defs query_defs)

text \<open>
  C8. When \<^verbatim>\<open>closeMonth\<close> returns an archive for month \<open>m\<close>, its starting balances
  are the ending balances of a closed archive of the account whose month is the greatest
  among the closed archives with a month strictly below \<open>m\<close> (as strings), and they are
  0 and 0 when the account has no closed archive with a smaller month.
\<close>

theorem closeMonth_starting_balances:
  assumes "closeMonth m now s = Some a"
  shows "let prior = filter (\<lambda>p. month p < m \<and> isClosed p) (getArchives s)
         in if prior = [] then startingFrontSafe a = 0 \<and> startingBackSafe a = 0
            else \<exists>p\<in>set prior. (\<forall>q\<in>set prior. month q \<le> month p)
                   \<and> startingFrontSafe a = endingFrontSafe p
                   \<and> startingBackSafe a = endingBackSafe p"
proof -
  let ?P = "\<lambda>p. month p < m \<and> isClosed p"
  from assms obtain u where u: "user s = Some u"
    by (cases "user s") (simp_all add: closeMonth_def)
  from assms u have sf: "startingFrontSafe a =
        (case find ?P (getArchives s) of None \<Rightarrow> 0 | Some p \<Rightarrow> endingFrontSafe p)"
    and sb: "startingBackSafe a =
        (case find ?P (getArchives s) of None \<Rightarrow> 0 | Some p \<Rightarrow> endingBackSafe p)"
    by (auto simp add: closeMonth_def Let_def split: if_splits)
  show ?thesis
  proof (cases "find ?P (getArchives s)")
    case None
    then have "filter ?P (getArchives s) = []" by (simp add: find_None_filter)
    with None sf sb show ?thesis by simp
  next
    case (Some p)
    from find_sorted_desc[OF getArchives_sorted Some]
    have p: "p \<in> set (getArchives s)" "?P p"
            "\<forall>q\<in>set (getArchives s). ?P q \<longrightarrow> month q \<le> month p"
      by auto
    then have ne: "filter ?P (getArchives s) \<noteq> []"
      by (auto simp add: filter_empty_conv)
    have "p \<in> set (filter ?P (getArchives s))" using p by simp
    moreover have "\<forall>q\<in>set (filter ?P (getArchives s)). month q \<le> month p" using p by simp
    ultimately show ?thesis using ne sf sb Some
      by (auto simp add: Let_def)
  qed
qed

theorem closeMonth_starting_balances_witness:
  "\<exists>a. closeMonth ''2024-03'' ''2024-04-01T08:00:00.000Z'' ex_store = Some a
       \<and> startingFrontSafe a = 100 \<and> startingBackSafe a = 450"
proof -
  obtain a where h: "closeMonth ''2024-03'' ''2024-04-01T08:00:00.000Z'' ex_store = Some a"
    by (simp add: closeMonth_def getEntriesForMonth_def getWithdrawalsForMonth_def Let_def
          ex_defs query_defs)
  have "startingFrontSafe a = 100 \<and> startingBackSafe a = 450"
    using closeMonth_starting_balances [OF h]
    by (auto simp add: ex_defs query_defs)
  with h show ?thesis by blast
qed

text \<open>
  C9 (the code departs from the claim). The claim reads: deleting a recorded withdrawal
  restores the back-safe balance to its value before the withdrawal and leaves no ledger
  row of that withdrawal. \<^verbatim>\<open>deleteWithdrawal\<close> deletes the withdrawal first; the schema
  then clears \<^verbatim>\<open>withdrawal_id\<close> on its ledger row, so the second request, which
  selects by \<^verbatim>\<open>withdrawal_id\<close>, finds no row. In the example the balance is 400, a
  withdrawal of 100 brings it to 300, and after deleting that withdrawal it is still
  300: the ledger row \<open>t3\<close> is kept, with its link cleared.
\<close>

theorem deleteWithdrawal_keeps_ledger_row:
  "(case handleSubmit (loadData ex_store ''2024-03-12T10:00:00.000Z'') 100 ''bank drop''
           ''w2'' ''t3'' ''2024-03-12T10:00:00.000Z'' ex_store of
      (r, s1) \<Rightarrow>
        r = Inr ()
        \<and> backSafe (getBalances ex_store ''2024-03-12T10:00:00.000Z'') = 400
        \<and> map bw_id (back_safe_withdrawals s1) = [''w1'', ''w2'']
        \<and> backSafe (getBalances s1 ''2024-03-12T10:00:00.000Z'') = 300
        \<and> map bw_id (back_safe_withdrawals (handleDelete (Some ''w2'') s1)) = [''w1'']
        \<and> map (\<lambda>t. (bt_id t, bt_type t, bt_amount t, bt_withdrawal_id t))
             (back_safe_transactions (handleDelete (Some ''w2'') s1))
            = [(''t0'', Deposit, 450, None), (''t1'', Deposit, 50, None),
               (''t2'', Withdrawal, 100, Some ''w1''), (''t3'', Withdrawal, 100, None)]
        \<and> backSafe (getBalances (handleDelete (Some ''w2'') s1) ''2024-03-12T10:00:00.000Z'') = 300)"
  by (simp add: handleSubmit_def handleDelete_def loadData_def saveWithdrawal_def
        saveBackSafeTransaction_def upsert_withdrawal_def deleteWithdrawal_def
        withdrawal_id_set_null_def getBalances_def backSafeStep_def round_double_int
        ex_defs query_defs)

text \<open>
  In every store, deleting a withdrawal of the signed-in account leaves the back-safe
  balance as it was.
\<close>

lemma deleteWithdrawal_backSafe_unchanged:
  assumes "user s = Some u"
      and "\<exists>row\<in>set (back_safe_withdrawals s). bw_id row = i \<and> bw_user_id row = u"
  shows "backSafe (getBalances (deleteWithdrawal i s) now) = backSafe (getBalances s now)"
proof -
  let ?deleted = "map bw_id (filter (\<lambda>row. bw_id row = i \<and> bw_user_id row = u) (back_safe_withdrawals s))"
  let ?f = "\<lambda>t. case bt_withdrawal_id t of
                   None \<Rightarrow> t
                 | Some j \<Rightarrow> if j \<in> set ?deleted then t\<lparr>bt_withdrawal_id := None\<rparr> else t"
  have i: "i \<in> set ?deleted" using assms(2) by auto
  have keep: "filter (\<lambda>t. bt_withdrawal_id t \<noteq> Some i) (map ?f rows) = map ?f rows"
    for rows :: "back_safe_transactions_row list"
    using i by (induction rows) (auto split: option.splits)
  have "map spec_signedAmount (getBackSafeTransactions (deleteWithdrawal i s))
      = map spec_signedAmount (getBackSafeTransactions s)"
    by (rule getBackSafeTransactions_update [where f = ?f])
       (simp_all add: deleteWithdrawal_def assms(1) withdrawal_id_set_null_def Let_def keep
          signedAmount_transactionOfRow split: option.splits TransactionType.splits)
  then show ?thesis
    by (simp add: getBalances_backSafe foldl_backSafeStep)
qed

text \<open>
  C10. \<^verbatim>\<open>getPreviousDayBalance\<close> returns the \<^verbatim>\<open>frontSafe\<close> of \<^verbatim>\<open>getBalances\<close>: the
  amount left in front by the first entry of the date-descending list, whose date no other
  entry of the account exceeds, or 0 when there is no entry. It has no date argument.
\<close>

theorem getPreviousDayBalance_eq_frontSafe:
  "getPreviousDayBalance s now = frontSafe (getBalances s now')
   \<and> getPreviousDayBalance s now = (case getEntries s of [] \<Rightarrow> 0 | e # _ \<Rightarrow> leftInFront e)
   \<and> (case getEntries s of [] \<Rightarrow> True | e # es \<Rightarrow> \<forall>e'\<in>set es. e_date e' \<le> e_date e)"
proof -
  have "case getEntries s of [] \<Rightarrow> True | e # es \<Rightarrow> \<forall>e'\<in>set es. e_date e' \<le> e_date e"
    using getEntries_sorted[of s] by (cases "getEntries s") auto
  then show ?thesis
    by (simp add: getPreviousDayBalance_latest getBalances_frontSafe)
qed

theorem getPreviousDayBalance_eq_frontSafe_witness:
  "user ex_store = Some ''u1''
   \<and> getPreviousDayBalance ex_store ''2024-03-11T08:00:00.000Z'' = 345
   \<and> frontSafe (getBalances ex_store ''2024-03-11T08:00:01.000Z'') = 345
   \<and> map e_date (getEntries ex_store) = [''2024-03-10'', ''2024-03-01'']"
  using getPreviousDayBalance_eq_frontSafe
          [of ex_store "''2024-03-11T08:00:00.000Z''" "''2024-03-11T08:00:01.000Z''"]
  by (simp add: ex_defs query_defs)

end
